theory Spec2Isabelle
  imports Main "HOL-Library.Word"
begin

section \<open>The camera screen of the face filter: data model\<close>

text \<open>
  The development follows \<^verbatim>\<open>src/src/data.c\<close>. C values of type \<^verbatim>\<open>int\<close> are
  integers of HOL together with an explicit range check (\<open>in_int\<close>): signed overflow is
  undefined in C, so an operation whose result leaves the range is the error
  \<open>SignedOverflow\<close>. Reads and writes through a null pointer or outside a buffer are
  errors as well. Pointers to buffers are options of lists: \<open>None\<close> is \<^verbatim>\<open>NULL\<close>.
\<close>

datatype error = SignedOverflow | OutOfBounds | NullDeref

type_synonym byte = "8 word"

subsection \<open>Camera states\<close>

text \<open>
  \<^verbatim>\<open>camera_state_e\<close> is an enumeration of the platform header, which is not part of
  the sources. Its five enumerators are the constructors below; the numbering the header
  gives them is a parameter \<open>enum\<close> of the function, and a state handed to the
  function is a C integer that may be the value of no enumerator.
\<close>

datatype camera_state_e =
    CAMERA_STATE_NONE
  | CAMERA_STATE_CREATED
  | CAMERA_STATE_PREVIEW
  | CAMERA_STATE_CAPTURING
  | CAMERA_STATE_CAPTURED

definition camera_state_to_string :: "(camera_state_e \<Rightarrow> int) \<Rightarrow> int \<Rightarrow> string" where
  "camera_state_to_string enum state =
     (if state = enum CAMERA_STATE_NONE then ''CAMERA_STATE_NONE''
      else if state = enum CAMERA_STATE_CREATED then ''CAMERA_STATE_CREATED''
      else if state = enum CAMERA_STATE_PREVIEW then ''CAMERA_STATE_PREVIEW''
      else if state = enum CAMERA_STATE_CAPTURING then ''CAMERA_STATE_CAPTURING''
      else if state = enum CAMERA_STATE_CAPTURED then ''CAMERA_STATE_CAPTURED''
      else ''Unknown'')"

text \<open>The numbering a C compiler gives to an enumeration without initialisers.\<close>

fun camera_state_value :: "camera_state_e \<Rightarrow> int" where
  "camera_state_value CAMERA_STATE_NONE = 0"
| "camera_state_value CAMERA_STATE_CREATED = 1"
| "camera_state_value CAMERA_STATE_PREVIEW = 2"
| "camera_state_value CAMERA_STATE_CAPTURING = 3"
| "camera_state_value CAMERA_STATE_CAPTURED = 4"

subsection \<open>C integers\<close>

definition in_int :: "int \<Rightarrow> bool" where
  "in_int v \<longleftrightarrow> - 2147483648 \<le> v \<and> v \<le> 2147483647"

definition c_add :: "int \<Rightarrow> int \<Rightarrow> error + int" where
  "c_add a b = (if in_int (a + b) then Inr (a + b) else Inl SignedOverflow)"

definition c_mul :: "int \<Rightarrow> int \<Rightarrow> error + int" where
  "c_mul a b = (if in_int (a * b) then Inr (a * b) else Inl SignedOverflow)"

subsection \<open>The shared face-detection state\<close>

text \<open>
  \<^verbatim>\<open>camera_detected_face_s\<close> is a structure of the platform header; the program reads
  the four fields below and copies whole records.
\<close>

record camera_detected_face_s =
  face_x :: int
  face_y :: int
  face_width :: int
  face_height :: int

text \<open>
  The globals the callbacks share: the buffer \<^verbatim>\<open>cam_face\<close> (\<open>None\<close> until it is
  allocated), the count \<^verbatim>\<open>cam_face_num\<close>, the flag \<^verbatim>\<open>cam_data.face_running\<close> and the
  mutex \<^verbatim>\<open>facelock\<close>. The field \<open>facelock\<close> is true while another thread holds the
  mutex, which is when \<^verbatim>\<open>pthread_mutex_trylock\<close> fails.
\<close>

record app_state =
  cam_face :: "camera_detected_face_s list option"
  cam_face_num :: int
  face_running :: bool
  facelock :: bool

text \<open>
  What a callback does to the mutex and to the two shared variables, in program order.
  One event stands for the accesses of one statement.
\<close>

datatype shared_var = CamFace | CamFaceNum

datatype event = TryLock bool | Unlock | Read shared_var | Write shared_var

text \<open>
  The lock discipline of a trace: every read and write happens between a successful
  \<open>TryLock\<close> and the next \<open>Unlock\<close>. The first argument says whether the lock is held.
\<close>

fun guarded :: "bool \<Rightarrow> event list \<Rightarrow> bool" where
  "guarded held [] = True"
| "guarded held (TryLock ok # es) = guarded ok es"
| "guarded held (Unlock # es) = guarded False es"
| "guarded held (Read v # es) = (held \<and> guarded held es)"
| "guarded held (Write v # es) = (held \<and> guarded held es)"

subsection \<open>The face-detection callback\<close>

text \<open>
  \<^verbatim>\<open>memcpy(cam_face, faces, sizeof(camera_detected_face_s)*count)\<close>: the first \<open>n\<close>
  records of the destination are replaced by the first \<open>n\<close> records of the source.
\<close>

definition memcpy_faces ::
  "camera_detected_face_s list option \<Rightarrow> camera_detected_face_s list \<Rightarrow> nat
     \<Rightarrow> error + camera_detected_face_s list" where
  "memcpy_faces dst src n =
     (case dst of
        None \<Rightarrow> Inl NullDeref
      | Some buf \<Rightarrow>
          if n \<le> length buf \<and> n \<le> length src then Inr (take n src @ drop n buf)
          else Inl OutOfBounds)"

text \<open>
  \<^verbatim>\<open>__camera_face_detected_cb\<close>. The macro \<^verbatim>\<open>MAXIMUM_FACE_NUMBER\<close> is defined in a
  header that is not part of the sources: it is the parameter \<open>maximum_face_number\<close>.
  The result is the trace of the call and the state it leaves.
\<close>

definition camera_face_detected_cb ::
  "nat \<Rightarrow> camera_detected_face_s list option \<Rightarrow> int \<Rightarrow> app_state
     \<Rightarrow> event list \<times> (error + app_state)" where
  "camera_face_detected_cb maximum_face_number faces count st =
     (if count = 0 then ([Write CamFaceNum], Inr (st\<lparr>cam_face_num := count\<rparr>))
      else if count > 0 then
        (case faces of
           None \<Rightarrow> ([], Inr st)
         | Some src \<Rightarrow>
             (let count' = (if count > int maximum_face_number then int maximum_face_number
                            else count)
              in if facelock st then ([TryLock False], Inr st)
                 else
                   (case memcpy_faces (cam_face st) src (nat count') of
                      Inl e \<Rightarrow> ([TryLock True, Write CamFace], Inl e)
                    | Inr buf \<Rightarrow>
                        (case src of
                           [] \<Rightarrow>
                             ([TryLock True, Write CamFace, Write CamFaceNum], Inl OutOfBounds)
                         | first # others \<Rightarrow>
                             ([TryLock True, Write CamFace, Write CamFaceNum, Unlock],
                              Inr (st\<lparr>cam_face := Some buf, cam_face_num := count'\<rparr>))))))
      else ([], Inr st))"

text \<open>
  The end of \<^verbatim>\<open>create_buttons_in_main_window\<close> that prepares face detection: the flag
  is cleared and, when the platform reports face detection as supported, the buffer is
  allocated. \<open>allocated\<close> is what \<^verbatim>\<open>malloc\<close> returns.
\<close>

definition setup_face_detection ::
  "bool \<Rightarrow> camera_detected_face_s list option \<Rightarrow> app_state \<Rightarrow> app_state" where
  "setup_face_detection supported allocated st =
     (let st1 = st\<lparr>face_running := False\<rparr>
      in if supported then st1\<lparr>cam_face := allocated\<rparr> else st1)"

subsection \<open>The face-detect button\<close>

datatype camera_call = Camera_stop_face_detection | Camera_start_face_detection

text \<open>
  \<^verbatim>\<open>__camera_cb_face\<close>. \<open>platform\<close> gives the error code each platform call returns;
  the value of \<^verbatim>\<open>CAMERA_ERROR_NONE\<close> comes from the platform header and is the parameter
  \<open>error_none\<close>. The result is the list of platform calls made and the new state.
\<close>

definition camera_cb_face ::
  "int \<Rightarrow> (camera_call \<Rightarrow> int) \<Rightarrow> app_state \<Rightarrow> camera_call list \<times> app_state" where
  "camera_cb_face error_none platform st =
     (if face_running st then
        (let error_code = platform Camera_stop_face_detection
         in ([Camera_stop_face_detection],
             if error_code \<noteq> error_none then st else st\<lparr>face_running := False\<rparr>))
      else
        (let error_code = platform Camera_start_face_detection
         in ([Camera_start_face_detection],
             if error_code \<noteq> error_none then st else st\<lparr>face_running := True\<rparr>)))"

subsection \<open>The preview callback\<close>

text \<open>
  The frame the platform hands to the preview callback, in its two-plane layout: the
  luminance plane \<^verbatim>\<open>data.double_plane.y\<close> and the chrominance plane.
\<close>

record camera_preview_data_s =
  plane_y :: "byte list"
  plane_uv :: "byte list"

text \<open>\<^verbatim>\<open>frame->data.double_plane.y[end] = 0\<close>\<close>

definition store_zero :: "byte list \<Rightarrow> int \<Rightarrow> error + byte list" where
  "store_zero ys e =
     (if 0 \<le> e \<and> e < int (length ys) then Inr (ys[nat e := 0]) else Inl OutOfBounds)"

text \<open>The inner loop, over \<open>i\<close>, from its current value up to the face's width.\<close>

function blank_row ::
  "camera_detected_face_s \<Rightarrow> int \<Rightarrow> int \<Rightarrow> int \<Rightarrow> byte list \<Rightarrow> error + byte list" where
  "blank_row f begin j i ys =
     (if i < face_width f then
        (case c_add begin i of
           Inl e \<Rightarrow> Inl e
         | Inr a \<Rightarrow>
             (case c_mul j 640 of
                Inl e \<Rightarrow> Inl e
              | Inr m \<Rightarrow>
                  (case c_add a m of
                     Inl e \<Rightarrow> Inl e
                   | Inr end \<Rightarrow>
                       (case store_zero ys end of
                          Inl e \<Rightarrow> Inl e
                        | Inr ys' \<Rightarrow> blank_row f begin j (i + 1) ys'))))
      else Inr ys)"
  by pat_completeness auto
termination
  by (relation "measure (\<lambda>(f, begin, j, i, ys). nat (face_width f - i))") auto

declare blank_row.simps [simp del]

text \<open>The outer loop, over \<open>j\<close>, from its current value up to the face's height.\<close>

function blank_rows ::
  "camera_detected_face_s \<Rightarrow> int \<Rightarrow> int \<Rightarrow> byte list \<Rightarrow> error + byte list" where
  "blank_rows f begin j ys =
     (if j < face_height f then
        (case blank_row f begin j 0 ys of
           Inl e \<Rightarrow> Inl e
         | Inr ys' \<Rightarrow> blank_rows f begin (j + 1) ys')
      else Inr ys)"
  by pat_completeness auto
termination
  by (relation "measure (\<lambda>(f, begin, j, ys). nat (face_height f - j))") auto

declare blank_rows.simps [simp del]

text \<open>\<^verbatim>\<open>int begin = cam_face->x + cam_face->y*640\<close>, then the two loops.\<close>

definition blank_face :: "camera_detected_face_s \<Rightarrow> byte list \<Rightarrow> error + byte list" where
  "blank_face f ys =
     (case c_mul (face_y f) 640 of
        Inl e \<Rightarrow> Inl e
      | Inr m \<Rightarrow>
          (case c_add (face_x f) m of
             Inl e \<Rightarrow> Inl e
           | Inr begin \<Rightarrow> blank_rows f begin 0 ys))"

text \<open>
  \<^verbatim>\<open>__camera_preview_cb\<close>. \<^verbatim>\<open>cam_face->x\<close> reads the first record of the buffer. The
  callback leaves the shared state as it is; the result is its trace and the frame.
\<close>

definition camera_preview_cb ::
  "app_state \<Rightarrow> camera_preview_data_s \<Rightarrow> event list \<times> (error + camera_preview_data_s)" where
  "camera_preview_cb st frame =
     (if facelock st then ([TryLock False], Inr frame)
      else
        (case cam_face st of
           None \<Rightarrow> ([TryLock True, Read CamFace, Unlock], Inr frame)
         | Some buf \<Rightarrow>
             if cam_face_num st > 0 \<and> face_running st then
               (case buf of
                  [] \<Rightarrow> ([TryLock True, Read CamFace, Read CamFaceNum, Read CamFace],
                         Inl OutOfBounds)
                | f # others \<Rightarrow>
                    (case blank_face f (plane_y frame) of
                       Inl e \<Rightarrow>
                         ([TryLock True, Read CamFace, Read CamFaceNum, Read CamFace], Inl e)
                     | Inr ys \<Rightarrow>
                         ([TryLock True, Read CamFace, Read CamFaceNum, Read CamFace, Unlock],
                          Inr (frame\<lparr>plane_y := ys\<rparr>))))
             else ([TryLock True, Read CamFace, Read CamFaceNum, Unlock], Inr frame)))"

text \<open>
  The indices the callback is meant to clear for a face: \<open>begin + i + j * 640\<close> for
  \<open>0 \<le> i < width\<close> and \<open>0 \<le> j < height\<close>.
\<close>

definition face_index :: "camera_detected_face_s \<Rightarrow> int \<Rightarrow> int \<Rightarrow> int" where
  "face_index f i j = (face_x f + face_y f * 640) + i + j * 640"

definition in_face :: "camera_detected_face_s \<Rightarrow> int \<Rightarrow> bool" where
  "in_face f p \<longleftrightarrow>
     (\<exists>i \<in> {0 ..< face_width f}. \<exists>j \<in> {0 ..< face_height f}. p = face_index f i j)"

text \<open>
  The face lies inside a luminance plane of \<open>n\<close> bytes, and computing its first index
  does not overflow.
\<close>

definition face_fits :: "camera_detected_face_s \<Rightarrow> nat \<Rightarrow> bool" where
  "face_fits f n \<longleftrightarrow>
     in_int (face_y f * 640) \<and> in_int (face_x f + face_y f * 640) \<and>
     (0 < face_width f \<and> 0 < face_height f \<longrightarrow>
        0 \<le> face_index f 0 0 \<and>
        face_index f (face_width f - 1) (face_height f - 1) < int n \<and>
        in_int (face_index f (face_width f - 1) (face_height f - 1)))"

text \<open>
  What one pass through the body of the inner loop needs at the cell \<open>(i, j)\<close> of a
  plane of \<open>n\<close> bytes: no sum or product leaves the range of \<^verbatim>\<open>int\<close>, and the
  index is inside the plane.
\<close>

definition cell_ok :: "int \<Rightarrow> nat \<Rightarrow> int \<Rightarrow> int \<Rightarrow> bool" where
  "cell_ok begin n i j \<longleftrightarrow>
     in_int (begin + i) \<and> in_int (j * 640) \<and> in_int (begin + i + j * 640) \<and>
     0 \<le> begin + i + j * 640 \<and> begin + i + j * 640 < int n"

subsection \<open>Choosing the preview resolution\<close>

text \<open>
  \<^verbatim>\<open>int resolution[2]\<close>: a cell is \<open>None\<close> until it is assigned. \<^verbatim>\<open>user_data\<close> is a
  pointer to the array, or \<^verbatim>\<open>NULL\<close>.
\<close>

type_synonym resolution = "int option \<times> int option"

definition preview_resolution_cb ::
  "int \<Rightarrow> int \<Rightarrow> resolution option \<Rightarrow> bool \<times> resolution option" where
  "preview_resolution_cb width height user_data =
     (case user_data of
        None \<Rightarrow> (True, None)
      | Some resolution \<Rightarrow>
          if width < 700 then (True, Some (Some width, Some height))
          else (True, Some resolution))"

text \<open>
  The platform's enumeration of the supported resolutions, by the contract the source
  documents for its callbacks: the callback is called for every supported resolution in
  turn and returns true to continue with the next, false to stop.
\<close>

fun camera_foreach_supported_preview_resolution ::
  "(int \<times> int) list \<Rightarrow> (int \<Rightarrow> int \<Rightarrow> 'u \<Rightarrow> bool \<times> 'u) \<Rightarrow> 'u \<Rightarrow> 'u" where
  "camera_foreach_supported_preview_resolution [] cb u = u"
| "camera_foreach_supported_preview_resolution ((w, h) # rs) cb u =
     (case cb w h u of
        (continue, u') \<Rightarrow>
          if continue then camera_foreach_supported_preview_resolution rs cb u' else u')"

subsection \<open>Writing a captured image\<close>

record camera_image_data_s =
  image_data :: "byte list option"
  image_size :: nat

text \<open>
  What the callback gets from the C library: whether \<^verbatim>\<open>malloc\<close> and \<^verbatim>\<open>fopen\<close>
  succeed, and the value of \<^verbatim>\<open>(int) time(NULL)\<close>.
\<close>

record capture_env =
  malloc_ok :: bool
  fopen_ok :: bool
  now :: int

type_synonym filesystem = "string \<rightharpoonup> byte list"

definition BUFLEN :: nat where
  "BUFLEN = 512"

text \<open>The conversion \<^verbatim>\<open>%d\<close> of \<^verbatim>\<open>printf\<close>.\<close>

definition digit_char :: "nat \<Rightarrow> char" where
  "digit_char d = ''0123456789'' ! d"

fun format_nat :: "nat \<Rightarrow> string" where
  "format_nat n =
     (if n < 10 then [digit_char n] else format_nat (n div 10) @ [digit_char (n mod 10)])"

declare format_nat.simps [simp del]

definition format_d :: "int \<Rightarrow> string" where
  "format_d v = (if v < 0 then CHR ''-'' # format_nat (nat (- v)) else format_nat (nat v))"

text \<open>\<^verbatim>\<open>snprintf\<close> into a buffer of \<open>n\<close> bytes keeps \<open>n - 1\<close> characters.\<close>

definition snprintf :: "nat \<Rightarrow> string \<Rightarrow> string" where
  "snprintf n s = take (n - 1) s"

text \<open>
  \<^verbatim>\<open>_camera_capturing_cb\<close>. \<^verbatim>\<open>fopen\<close> with mode \<^verbatim>\<open>w+\<close> creates the file or empties an
  existing one; \<^verbatim>\<open>fwrite\<close> then writes the first \<^verbatim>\<open>image->size\<close> bytes of the data.
\<close>

definition camera_capturing_cb ::
  "capture_env \<Rightarrow> string option \<Rightarrow> camera_image_data_s option \<Rightarrow> filesystem
     \<Rightarrow> error + filesystem" where
  "camera_capturing_cb env camera_directory img fs =
     (case img of
        None \<Rightarrow> Inr fs
      | Some im \<Rightarrow>
          (case image_data im of
             None \<Rightarrow> Inr fs
           | Some bytes \<Rightarrow>
               if \<not> malloc_ok env then Inl NullDeref
               else
                 (case camera_directory of
                    None \<Rightarrow> Inl NullDeref
                  | Some dir \<Rightarrow>
                      (let file_path =
                             snprintf BUFLEN (dir @ ''/cam'' @ format_d (now env) @ ''.jpg'')
                       in if \<not> fopen_ok env then Inl NullDeref
                          else if image_size im > length bytes then Inl OutOfBounds
                          else Inr (fs(file_path \<mapsto> take (image_size im) bytes))))))"

subsection \<open>Example inputs\<close>

definition face_a :: camera_detected_face_s where
  "face_a = \<lparr>face_x = 1, face_y = 0, face_width = 2, face_height = 1\<rparr>"

definition face_b :: camera_detected_face_s where
  "face_b = \<lparr>face_x = 4, face_y = 0, face_width = 1, face_height = 1\<rparr>"

definition face_c :: camera_detected_face_s where
  "face_c = \<lparr>face_x = 0, face_y = 0, face_width = 0, face_height = 0\<rparr>"

definition face_d :: camera_detected_face_s where
  "face_d = \<lparr>face_x = 1, face_y = 0, face_width = 2, face_height = 2\<rparr>"

section \<open>Theorems\<close>

subsection \<open>Camera states\<close>

lemma inj_camera_state_value: "inj camera_state_value"
proof (rule injI)
  fix a b
  assume "camera_state_value a = camera_state_value b"
  then show "a = b" by (cases a; cases b) simp_all
qed

text \<open>
  Claim C8. The mapping from camera states to strings is total and covers the five states
  of the protocol: the value of each enumerator is mapped to the enumerator's literal
  name, and every value that belongs to no enumerator is mapped to \<open>Unknown\<close>. The
  enumerators' values are distinct, as the labels of a C \<^verbatim>\<open>switch\<close> must be.
\<close>

theorem camera_state_to_string_total:
  assumes "inj enum"
  shows "camera_state_to_string enum (enum CAMERA_STATE_NONE) = ''CAMERA_STATE_NONE''
       \<and> camera_state_to_string enum (enum CAMERA_STATE_CREATED) = ''CAMERA_STATE_CREATED''
       \<and> camera_state_to_string enum (enum CAMERA_STATE_PREVIEW) = ''CAMERA_STATE_PREVIEW''
       \<and> camera_state_to_string enum (enum CAMERA_STATE_CAPTURING) = ''CAMERA_STATE_CAPTURING''
       \<and> camera_state_to_string enum (enum CAMERA_STATE_CAPTURED) = ''CAMERA_STATE_CAPTURED''
       \<and> (\<forall>v. v \<notin> range enum \<longrightarrow> camera_state_to_string enum v = ''Unknown'')"
proof -
  have neq: "\<And>a b. a \<noteq> b \<Longrightarrow> enum a \<noteq> enum b"
    using assms by (auto dest: injD)
  have other: "\<And>v s. v \<notin> range enum \<Longrightarrow> v \<noteq> enum s"
    by blast
  show ?thesis
    by (simp add: camera_state_to_string_def neq other)
qed

theorem camera_state_to_string_total_witness:
  "inj camera_state_value
   \<and> camera_state_to_string camera_state_value 0 = ''CAMERA_STATE_NONE''
   \<and> camera_state_to_string camera_state_value 1 = ''CAMERA_STATE_CREATED''
   \<and> camera_state_to_string camera_state_value 2 = ''CAMERA_STATE_PREVIEW''
   \<and> camera_state_to_string camera_state_value 3 = ''CAMERA_STATE_CAPTURING''
   \<and> camera_state_to_string camera_state_value 4 = ''CAMERA_STATE_CAPTURED''
   \<and> camera_state_to_string camera_state_value 7 = ''Unknown''"
proof -
  have seven: "(7::int) \<notin> range camera_state_value"
  proof
    assume "7 \<in> range camera_state_value"
    then obtain s where "camera_state_value s = 7" by auto
    then show False by (cases s) simp_all
  qed
  from camera_state_to_string_total [OF inj_camera_state_value] seven
  show ?thesis using inj_camera_state_value by simp
qed

subsection \<open>The lock discipline\<close>

lemma preview_trace_guarded: "guarded False (fst (camera_preview_cb st frame))"
  by (simp add: camera_preview_cb_def split: option.splits list.splits sum.splits)

lemma face_detected_trace_guarded:
  "count \<noteq> 0 \<Longrightarrow> guarded False (fst (camera_face_detected_cb m faces count st))"
  by (simp add: camera_face_detected_cb_def Let_def split: option.splits list.splits sum.splits)

text \<open>
  Claim C1. Every access to the shared face-detection state is to happen between a
  successful trylock and the unlock. The preview callback and the copying path of the
  detection callback keep to that (the two lemmas above). The path of the detection
  callback for \<open>count = 0\<close> does not: it writes \<^verbatim>\<open>cam_face_num\<close> and never tries
  the lock, whatever the state of the mutex.
\<close>

theorem face_detected_count_zero_unguarded:
  "camera_face_detected_cb m faces 0 st = ([Write CamFaceNum], Inr (st\<lparr>cam_face_num := 0\<rparr>))
   \<and> \<not> guarded False (fst (camera_face_detected_cb m faces 0 st))"
  by (simp add: camera_face_detected_cb_def)

subsection \<open>The face-detection callback\<close>

text \<open>
  Claim C5. When the callback is called with \<open>count > 0\<close> and a non-null array of faces
  while the mutex is held elsewhere, the trylock fails and the detection result is
  dropped: the state, and so \<^verbatim>\<open>cam_face\<close> and \<^verbatim>\<open>cam_face_num\<close>, is left as it was.
\<close>

theorem face_detected_lock_failed:
  assumes "0 < count" and "faces = Some src" and "facelock st"
  shows "camera_face_detected_cb m faces count st = ([TryLock False], Inr st)"
  using assms by (simp add: camera_face_detected_cb_def)

theorem face_detected_lock_failed_witness:
  "camera_face_detected_cb 2 (Some [face_a]) 1
     \<lparr>cam_face = Some [face_b, face_c], cam_face_num = 2, face_running = True, facelock = True\<rparr>
   = ([TryLock False],
      Inr \<lparr>cam_face = Some [face_b, face_c], cam_face_num = 2, face_running = True,
           facelock = True\<rparr>)"
  using face_detected_lock_failed [of 1 "Some [face_a]" "[face_a]"
      "\<lparr>cam_face = Some [face_b, face_c], cam_face_num = 2, face_running = True, facelock = True\<rparr>" 2]
  by simp

text \<open>
  Claim C4, as stated: for every call with \<open>count > 0\<close> and a non-null array of faces
  the callback stores \<open>min count MAXIMUM_FACE_NUMBER\<close> in \<^verbatim>\<open>cam_face_num\<close>. Even
  with an array of \<open>count\<close> faces and an allocated buffer, it fails when the trylock
  fails: nothing is copied and the count keeps its old value.
\<close>

theorem face_detected_copy_counterexample:
  "\<not> (\<forall>m src buf count st.
        0 < count \<and> count \<le> int (length src) \<and> cam_face st = Some buf \<and> length buf = m \<longrightarrow>
        (\<exists>st'. snd (camera_face_detected_cb m (Some src) count st) = Inr st'
               \<and> cam_face_num st' = min count (int m)))"
proof
  let ?st = "\<lparr>cam_face = Some [face_b, face_c], cam_face_num = 0, face_running = True,
      facelock = True\<rparr>"
  assume "\<forall>m src buf count st.
        0 < count \<and> count \<le> int (length src) \<and> cam_face st = Some buf \<and> length buf = m \<longrightarrow>
        (\<exists>st'. snd (camera_face_detected_cb m (Some src) count st) = Inr st'
               \<and> cam_face_num st' = min count (int m))"
  then have "(0::int) < 1 \<and> 1 \<le> int (length [face_a]) \<and>
        cam_face ?st = Some [face_b, face_c] \<and> length [face_b, face_c] = 2 \<longrightarrow>
        (\<exists>st'. snd (camera_face_detected_cb 2 (Some [face_a]) 1 ?st) = Inr st'
               \<and> cam_face_num st' = min 1 (int 2))"
    by blast
  then show False
    by (simp add: camera_face_detected_cb_def)
qed

text \<open>
  Claim C4, amended. For every call with \<open>count > 0\<close>, an array holding at least
  \<open>count\<close> faces, a successful trylock and a buffer \<^verbatim>\<open>cam_face\<close> allocated with
  \<^verbatim>\<open>MAXIMUM_FACE_NUMBER\<close> slots, the callback copies the first
  \<open>min count MAXIMUM_FACE_NUMBER\<close> faces to the front of the buffer and stores that
  number in \<^verbatim>\<open>cam_face_num\<close>; the buffer keeps its \<^verbatim>\<open>MAXIMUM_FACE_NUMBER\<close> slots,
  so nothing is written past them.
\<close>

theorem face_detected_copy:
  assumes "0 < count" and "faces = Some src" and "\<not> facelock st"
    and "cam_face st = Some buf" and "length buf = m" and "count \<le> int (length src)"
  shows "snd (camera_face_detected_cb m faces count st) =
           Inr (st\<lparr>cam_face := Some (take (min (nat count) m) src @ drop (min (nat count) m) buf),
                   cam_face_num := min count (int m)\<rparr>)
         \<and> length (take (min (nat count) m) src) = min (nat count) m
         \<and> length (take (min (nat count) m) src @ drop (min (nat count) m) buf) = m
         \<and> int (min (nat count) m) = min count (int m)"
proof -
  obtain a as where src: "src = a # as"
    using assms(1,6) by (cases src) auto
  have n: "nat (if int m < count then int m else count) = min (nat count) m"
    using assms(1) by auto
  have le: "min (nat count) m \<le> length buf" "min (nat count) m \<le> length src"
    using assms by auto
  have "snd (camera_face_detected_cb m faces count st) =
           Inr (st\<lparr>cam_face := Some (take (min (nat count) m) src @ drop (min (nat count) m) buf),
                   cam_face_num := min count (int m)\<rparr>)"
    using assms(1-4) le
    by (simp add: camera_face_detected_cb_def Let_def memcpy_faces_def n min_def src)
  then show ?thesis using le assms(1,5) by auto
qed

theorem face_detected_copy_witness:
  "snd (camera_face_detected_cb 2 (Some [face_a, face_b, face_c]) 3
     \<lparr>cam_face = Some [face_c, face_c], cam_face_num = 0, face_running = True, facelock = False\<rparr>)
   = Inr \<lparr>cam_face = Some [face_a, face_b], cam_face_num = 2, face_running = True,
          facelock = False\<rparr>"
  using face_detected_copy [of 3 "Some [face_a, face_b, face_c]" "[face_a, face_b, face_c]"
      "\<lparr>cam_face = Some [face_c, face_c], cam_face_num = 0, face_running = True, facelock = False\<rparr>"
      "[face_c, face_c]" 2]
  by simp

text \<open>
  Claim C9. The copying path of the detection callback needs \<^verbatim>\<open>cam_face\<close> to be
  non-null. For every call with \<open>count > 0\<close>, a non-null array of faces and a
  successful trylock: when \<^verbatim>\<open>cam_face\<close> is null the copy goes through a null pointer,
  so a call that returns normally had the buffer allocated. The preview callback tests
  the pointer and leaves the frame alone when it is null. The set-up allocates the buffer
  only when face detection is reported as supported.
\<close>

theorem face_detected_requires_buffer:
  assumes "0 < count" and "\<not> facelock st"
  shows "(cam_face st = None \<longrightarrow>
            snd (camera_face_detected_cb m (Some src) count st) = Inl NullDeref)
       \<and> ((\<exists>st'. snd (camera_face_detected_cb m (Some src) count st) = Inr st') \<longrightarrow>
            cam_face st \<noteq> None)
       \<and> (cam_face st = None \<longrightarrow> snd (camera_preview_cb st frame) = Inr frame)
       \<and> (cam_face st = None \<longrightarrow> cam_face (setup_face_detection False allocated st) = None)
       \<and> cam_face (setup_face_detection True allocated st) = allocated"
proof -
  have null: "cam_face st = None \<Longrightarrow>
      snd (camera_face_detected_cb m (Some src) count st) = Inl NullDeref"
    using assms by (simp add: camera_face_detected_cb_def Let_def memcpy_faces_def)
  have safe: "cam_face st \<noteq> None"
    if "\<exists>st'. snd (camera_face_detected_cb m (Some src) count st) = Inr st'"
  proof
    assume "cam_face st = None"
    then have "snd (camera_face_detected_cb m (Some src) count st) = Inl NullDeref"
      by (rule null)
    with that show False by simp
  qed
  have preview: "cam_face st = None \<Longrightarrow> snd (camera_preview_cb st frame) = Inr frame"
    by (simp add: camera_preview_cb_def)
  have alloc: "cam_face st = None \<Longrightarrow>
      cam_face (setup_face_detection False allocated st) = None"
    "cam_face (setup_face_detection True allocated st) = allocated"
    by (simp_all add: setup_face_detection_def)
  from null safe preview alloc show ?thesis by blast
qed

theorem face_detected_requires_buffer_witness:
  "snd (camera_face_detected_cb 2 (Some [face_a]) 1
     \<lparr>cam_face = None, cam_face_num = 0, face_running = True, facelock = False\<rparr>)
   = Inl NullDeref
   \<and> snd (camera_preview_cb
       \<lparr>cam_face = None, cam_face_num = 0, face_running = True, facelock = False\<rparr>
       \<lparr>plane_y = [1, 2, 3], plane_uv = []\<rparr>) = Inr \<lparr>plane_y = [1, 2, 3], plane_uv = []\<rparr>"
  using face_detected_requires_buffer [of 1
      "\<lparr>cam_face = None, cam_face_num = 0, face_running = True, facelock = False\<rparr>"
      2 "[face_a]" "\<lparr>plane_y = [1, 2, 3], plane_uv = []\<rparr>" None]
  by simp

subsection \<open>The face-detect button\<close>

text \<open>
  Claim C6. A click on the face-detect button toggles face detection. When the flag
  \<^verbatim>\<open>face_running\<close> is set, the callback calls \<^verbatim>\<open>camera_stop_face_detection\<close> and clears
  the flag exactly when the call returns \<^verbatim>\<open>CAMERA_ERROR_NONE\<close>; when the flag is clear,
  it calls \<^verbatim>\<open>camera_start_face_detection\<close> and sets the flag exactly when the call
  returns \<^verbatim>\<open>CAMERA_ERROR_NONE\<close>; when the platform reports an error the state is
  unchanged.
\<close>

theorem camera_cb_face_toggle:
  "(face_running st \<longrightarrow>
      fst (camera_cb_face en pf st) = [Camera_stop_face_detection] \<and>
      (\<not> face_running (snd (camera_cb_face en pf st)) \<longleftrightarrow> pf Camera_stop_face_detection = en) \<and>
      (pf Camera_stop_face_detection \<noteq> en \<longrightarrow> snd (camera_cb_face en pf st) = st))
   \<and> (\<not> face_running st \<longrightarrow>
      fst (camera_cb_face en pf st) = [Camera_start_face_detection] \<and>
      (face_running (snd (camera_cb_face en pf st)) \<longleftrightarrow> pf Camera_start_face_detection = en) \<and>
      (pf Camera_start_face_detection \<noteq> en \<longrightarrow> snd (camera_cb_face en pf st) = st))"
  by (simp add: camera_cb_face_def Let_def)

theorem camera_cb_face_toggle_witness:
  "camera_cb_face 0 (\<lambda>c. 0)
     \<lparr>cam_face = None, cam_face_num = 0, face_running = False, facelock = False\<rparr>
   = ([Camera_start_face_detection],
      \<lparr>cam_face = None, cam_face_num = 0, face_running = True, facelock = False\<rparr>)
   \<and> snd (camera_cb_face 0 (\<lambda>c. 1)
     \<lparr>cam_face = None, cam_face_num = 0, face_running = True, facelock = False\<rparr>)
   = \<lparr>cam_face = None, cam_face_num = 0, face_running = True, facelock = False\<rparr>"
proof -
  have a: "snd (camera_cb_face 0 (\<lambda>c. 1)
     \<lparr>cam_face = None, cam_face_num = 0, face_running = True, facelock = False\<rparr>)
   = \<lparr>cam_face = None, cam_face_num = 0, face_running = True, facelock = False\<rparr>"
    using camera_cb_face_toggle [of
      "\<lparr>cam_face = None, cam_face_num = 0, face_running = True, facelock = False\<rparr>" 0 "\<lambda>c. 1"]
    by simp
  have b: "camera_cb_face 0 (\<lambda>c. 0)
     \<lparr>cam_face = None, cam_face_num = 0, face_running = False, facelock = False\<rparr>
   = ([Camera_start_face_detection],
      \<lparr>cam_face = None, cam_face_num = 0, face_running = True, facelock = False\<rparr>)"
    by (simp add: camera_cb_face_def)
  from a b show ?thesis by simp
qed

subsection \<open>Choosing the preview resolution\<close>

lemma preview_resolution_cb_Some:
  "preview_resolution_cb w h (Some r) =
     (True, Some (if w < 700 then (Some w, Some h) else r))"
  by (simp add: preview_resolution_cb_def)

lemma preview_resolution_cb_None: "preview_resolution_cb w h None = (True, None)"
  by (simp add: preview_resolution_cb_def)

lemma preview_resolution_cb_continues: "fst (preview_resolution_cb w h u) = True"
  by (cases u) (simp_all add: preview_resolution_cb_Some preview_resolution_cb_None)

lemma foreach_resolution_append:
  "camera_foreach_supported_preview_resolution (rs @ [(w, h)]) preview_resolution_cb u =
     snd (preview_resolution_cb w h
       (camera_foreach_supported_preview_resolution rs preview_resolution_cb u))"
proof (induction rs arbitrary: u)
  case Nil
  obtain u' where "preview_resolution_cb w h u = (True, u')"
    using preview_resolution_cb_continues [of w h u]
    by (cases "preview_resolution_cb w h u") simp
  then show ?case by simp
next
  case (Cons r rs)
  obtain a b where r: "r = (a, b)" by (cases r)
  obtain u' where "preview_resolution_cb a b u = (True, u')"
    using preview_resolution_cb_continues [of a b u]
    by (cases "preview_resolution_cb a b u") simp
  then show ?case
    using Cons.IH [of u'] by (simp add: r)
qed

text \<open>
  Claim C10. The resolution callback always asks for the next resolution, and it records
  a resolution only when its width is below 700. So after the enumeration the array holds
  the last supported resolution whose width is below 700, and when there is none the
  array is as it was before (unassigned, when it started so).
\<close>

theorem preview_resolution_last_below_700:
  "fst (preview_resolution_cb w h user_data) = True
   \<and> snd (preview_resolution_cb w h (Some r)) =
       (if w < 700 then Some (Some w, Some h) else Some r)
   \<and> camera_foreach_supported_preview_resolution rs preview_resolution_cb (Some r) =
       (if filter (\<lambda>(w, h). w < 700) rs = [] then Some r
        else Some (Some (fst (last (filter (\<lambda>(w, h). w < 700) rs))),
                   Some (snd (last (filter (\<lambda>(w, h). w < 700) rs)))))"
proof -
  have "camera_foreach_supported_preview_resolution rs preview_resolution_cb (Some r) =
       (if filter (\<lambda>(w, h). w < 700) rs = [] then Some r
        else Some (Some (fst (last (filter (\<lambda>(w, h). w < 700) rs))),
                   Some (snd (last (filter (\<lambda>(w, h). w < 700) rs)))))"
  proof (induction rs rule: rev_induct)
    case Nil
    show ?case by simp
  next
    case (snoc p rs)
    obtain a b where p: "p = (a, b)" by (cases p)
    show ?case
      unfolding p foreach_resolution_append snoc.IH
      by (simp add: preview_resolution_cb_Some)
  qed
  then show ?thesis
    by (simp add: preview_resolution_cb_continues preview_resolution_cb_Some)
qed

theorem preview_resolution_last_below_700_witness:
  "camera_foreach_supported_preview_resolution [(320, 240), (640, 480), (1280, 720)]
     preview_resolution_cb (Some (None, None)) = Some (Some 640, Some 480)
   \<and> camera_foreach_supported_preview_resolution [(1280, 720), (1920, 1080)]
     preview_resolution_cb (Some (None, None)) = Some (None, None)"
  using preview_resolution_last_below_700 [of 0 0 None "(None, None)"
      "[(320, 240), (640, 480), (1280, 720)]"]
    preview_resolution_last_below_700 [of 0 0 None "(None, None)" "[(1280, 720), (1920, 1080)]"]
  by simp

subsection \<open>Writing a captured image\<close>

lemma camera_capturing_cb_null:
  "img = None \<or> (\<exists>im. img = Some im \<and> image_data im = None) \<Longrightarrow>
      camera_capturing_cb env dir img fs = Inr fs"
  by (auto simp add: camera_capturing_cb_def)

lemma camera_capturing_cb_write:
  assumes "img = Some im" "image_data im = Some bytes" "dir = Some d" "malloc_ok env"
        "fopen_ok env" "image_size im \<le> length bytes"
  shows   "camera_capturing_cb env dir img fs =
          Inr (fs(take (BUFLEN - 1) (d @ ''/cam'' @ format_d (now env) @ ''.jpg'') \<mapsto>
                    take (image_size im) bytes))"
  using assms by (simp add: camera_capturing_cb_def snprintf_def Let_def)

text \<open>
  Claim C7, as stated: for every call with a non-null image whose data is non-null, the
  bytes are written to the file whose path is the camera directory joined with
  \<^verbatim>\<open>/cam<time>.jpg\<close>. Even when \<^verbatim>\<open>malloc\<close> and \<^verbatim>\<open>fopen\<close> succeed, it fails for a
  directory of 512 characters: \<^verbatim>\<open>snprintf\<close> cuts the path to the 511 characters that
  fit the buffer, and the file written is another.
\<close>

theorem camera_capturing_writes_image_counterexample:
  "\<not> (\<forall>env d im bytes fs.
        image_data im = Some bytes \<and> image_size im \<le> length bytes \<and> malloc_ok env \<and>
        fopen_ok env \<longrightarrow>
        camera_capturing_cb env (Some d) (Some im) fs =
          Inr (fs(d @ ''/cam'' @ format_d (now env) @ ''.jpg'' \<mapsto>
                    take (image_size im) bytes)))"
proof
  let ?env = "\<lparr>malloc_ok = True, fopen_ok = True, now = 0\<rparr>"
  let ?d = "replicate 512 (CHR ''a'')"
  let ?im = "\<lparr>image_data = Some [1 :: byte], image_size = 1\<rparr>"
  let ?full = "?d @ ''/cam'' @ format_d (now ?env) @ ''.jpg''"
  assume "\<forall>env d im bytes fs.
        image_data im = Some bytes \<and> image_size im \<le> length bytes \<and> malloc_ok env \<and>
        fopen_ok env \<longrightarrow>
        camera_capturing_cb env (Some d) (Some im) fs =
          Inr (fs(d @ ''/cam'' @ format_d (now env) @ ''.jpg'' \<mapsto>
                    take (image_size im) bytes))"
  then have "image_data ?im = Some [1] \<and> image_size ?im \<le> length [1 :: byte] \<and>
        malloc_ok ?env \<and> fopen_ok ?env \<longrightarrow>
        camera_capturing_cb ?env (Some ?d) (Some ?im) Map.empty =
          Inr (Map.empty(?full \<mapsto> take (image_size ?im) [1]))"
    by blast
  then have "camera_capturing_cb ?env (Some ?d) (Some ?im) Map.empty =
      Inr (Map.empty(?full \<mapsto> [1]))"
    by simp
  moreover have "camera_capturing_cb ?env (Some ?d) (Some ?im) Map.empty =
      Inr (Map.empty(take 511 ?full \<mapsto> [1]))"
    by (simp add: camera_capturing_cb_def snprintf_def BUFLEN_def Let_def)
  ultimately have "(Map.empty(take 511 ?full \<mapsto> [1 :: byte])) ?full =
      (Map.empty(?full \<mapsto> [1])) ?full"
    by simp
  moreover have "take 511 ?full \<noteq> ?full"
  proof
    assume "take 511 ?full = ?full"
    then have "length (take 511 ?full) = length ?full" by simp
    then show False by simp
  qed
  ultimately show False by simp
qed

text \<open>
  Claim C7, amended. When the image or its data is null, no file is created and nothing
  is written. For a non-null image with non-null data holding at least \<^verbatim>\<open>image->size\<close>
  bytes, when \<^verbatim>\<open>malloc\<close> and \<^verbatim>\<open>fopen\<close> succeed and the camera directory is known,
  exactly \<^verbatim>\<open>image->size\<close> bytes of the data are written to the file whose path is the
  first \<open>BUFLEN - 1\<close> characters of the camera directory joined with
  \<^verbatim>\<open>/cam<time>.jpg\<close>: the whole of it when it is shorter than \<open>BUFLEN\<close>. No other file
  changes.
\<close>

theorem camera_capturing_writes_image:
  "(img = None \<or> (\<exists>im. img = Some im \<and> image_data im = None) \<longrightarrow>
      camera_capturing_cb env dir img fs = Inr fs)
   \<and> (\<forall>im bytes d.
        img = Some im \<and> image_data im = Some bytes \<and> dir = Some d \<and> malloc_ok env \<and>
        fopen_ok env \<and> image_size im \<le> length bytes \<longrightarrow>
        camera_capturing_cb env dir img fs =
          Inr (fs(take (BUFLEN - 1) (d @ ''/cam'' @ format_d (now env) @ ''.jpg'') \<mapsto>
                    take (image_size im) bytes))
        \<and> length (take (image_size im) bytes) = image_size im
        \<and> (length (d @ ''/cam'' @ format_d (now env) @ ''.jpg'') < BUFLEN \<longrightarrow>
             take (BUFLEN - 1) (d @ ''/cam'' @ format_d (now env) @ ''.jpg'') =
               d @ ''/cam'' @ format_d (now env) @ ''.jpg''))"
proof (intro conjI allI impI)
  assume "img = None \<or> (\<exists>im. img = Some im \<and> image_data im = None)"
  then show "camera_capturing_cb env dir img fs = Inr fs"
    by (rule camera_capturing_cb_null)
next
  fix im bytes d
  assume h: "img = Some im \<and> image_data im = Some bytes \<and> dir = Some d \<and> malloc_ok env \<and>
        fopen_ok env \<and> image_size im \<le> length bytes"
  then show "camera_capturing_cb env dir img fs =
          Inr (fs(take (BUFLEN - 1) (d @ ''/cam'' @ format_d (now env) @ ''.jpg'') \<mapsto>
                    take (image_size im) bytes))"
    by (intro camera_capturing_cb_write) simp_all
  from h show "length (take (image_size im) bytes) = image_size im"
    by simp
next
  fix d :: string
  assume "length (d @ ''/cam'' @ format_d (now env) @ ''.jpg'') < BUFLEN"
  then show "take (BUFLEN - 1) (d @ ''/cam'' @ format_d (now env) @ ''.jpg'') =
               d @ ''/cam'' @ format_d (now env) @ ''.jpg''"
    by (intro take_all) simp
qed

theorem camera_capturing_writes_image_witness:
  "camera_capturing_cb \<lparr>malloc_ok = True, fopen_ok = True, now = 1477817340\<rparr>
     (Some ''/opt/usr/media/Camera'')
     (Some \<lparr>image_data = Some [255, 216, 255, 224], image_size = 3\<rparr>) Map.empty
   = Inr [''/opt/usr/media/Camera/cam1477817340.jpg'' \<mapsto> [255, 216, 255]]
   \<and> camera_capturing_cb \<lparr>malloc_ok = True, fopen_ok = True, now = 1477817340\<rparr>
     (Some ''/opt/usr/media/Camera'') None Map.empty = Inr Map.empty"
proof -
  have fmt: "format_d 1477817340 = ''1477817340''"
    by (simp add: format_d_def format_nat.simps digit_char_def)
  show ?thesis
    using camera_capturing_writes_image
      [of "Some \<lparr>image_data = Some [255, 216, 255, 224], image_size = 3\<rparr>"
          "\<lparr>malloc_ok = True, fopen_ok = True, now = 1477817340\<rparr>"
          "Some ''/opt/usr/media/Camera''" Map.empty]
      camera_capturing_writes_image
      [of None "\<lparr>malloc_ok = True, fopen_ok = True, now = 1477817340\<rparr>"
          "Some ''/opt/usr/media/Camera''" Map.empty]
    by (simp add: fmt BUFLEN_def)
qed

subsection \<open>The preview callback\<close>

lemma blank_row_step:
  assumes "i < face_width f" and "cell_ok begin (length ys) i j"
  shows "blank_row f begin j i ys =
           blank_row f begin j (i + 1) (ys[nat (begin + i + j * 640) := 0])"
  using assms
  by (subst blank_row.simps) (simp add: cell_ok_def c_add_def c_mul_def store_zero_def)

lemma blank_row_done: "\<not> i < face_width f \<Longrightarrow> blank_row f begin j i ys = Inr ys"
  by (subst blank_row.simps) simp

lemma blank_row_ok:
  assumes "\<forall>k. i \<le> k \<and> k < face_width f \<longrightarrow> cell_ok begin (length ys) k j"
  shows "\<exists>ys'. blank_row f begin j i ys = Inr ys' \<and> length ys' = length ys \<and>
           (\<forall>p < length ys. ys' ! p =
              (if \<exists>k. i \<le> k \<and> k < face_width f \<and> int p = begin + k + j * 640 then 0
               else ys ! p))"
  using assms
proof (induction "nat (face_width f - i)" arbitrary: i ys)
  case 0
  then have "\<not> i < face_width f" by simp
  then show ?case by (auto simp add: blank_row_done)
next
  case (Suc n)
  then have lt: "i < face_width f" by simp
  let ?e = "begin + i + j * 640"
  let ?ys1 = "ys[nat ?e := 0]"
  have ok: "cell_ok begin (length ys) i j"
    using Suc.prems lt by simp
  have step: "blank_row f begin j i ys = blank_row f begin j (i + 1) ?ys1"
    using lt ok by (rule blank_row_step)
  have "n = nat (face_width f - (i + 1))"
    using Suc.hyps(2) by simp
  moreover have "\<forall>k. i + 1 \<le> k \<and> k < face_width f \<longrightarrow> cell_ok begin (length ?ys1) k j"
    using Suc.prems by simp
  ultimately obtain ys' where r: "blank_row f begin j (i + 1) ?ys1 = Inr ys'"
    and len: "length ys' = length ?ys1"
    and val: "\<forall>p < length ?ys1. ys' ! p =
              (if \<exists>k. i + 1 \<le> k \<and> k < face_width f \<and> int p = begin + k + j * 640 then 0
               else ?ys1 ! p)"
    using Suc.hyps(1) [of "i + 1" ?ys1] by blast
  have e0: "0 \<le> ?e" using ok by (simp add: cell_ok_def)
  have "ys' ! p =
              (if \<exists>k. i \<le> k \<and> k < face_width f \<and> int p = begin + k + j * 640 then 0
               else ys ! p)" if p: "p < length ys" for p
  proof -
    have "p < length ?ys1" using p by simp
    with val have eq: "ys' ! p =
        (if \<exists>k. i + 1 \<le> k \<and> k < face_width f \<and> int p = begin + k + j * 640 then 0
         else ?ys1 ! p)"
      by blast
    show ?thesis
    proof (cases "int p = ?e")
      case True
      then have pe: "p = nat ?e" by simp
      have ex: "\<exists>k. i \<le> k \<and> k < face_width f \<and> int p = begin + k + j * 640"
        using True lt by (intro exI [of _ i]) simp
      have "?ys1 ! p = 0" using p pe by simp
      with eq have "ys' ! p = 0" by (simp split: if_splits)
      with ex show ?thesis by (simp only: if_True)
    next
      case False
      then have ne: "p \<noteq> nat ?e" using e0 by auto
      have iff: "(\<exists>k. i \<le> k \<and> k < face_width f \<and> int p = begin + k + j * 640) \<longleftrightarrow>
            (\<exists>k. i + 1 \<le> k \<and> k < face_width f \<and> int p = begin + k + j * 640)"
      proof
        assume "\<exists>k. i \<le> k \<and> k < face_width f \<and> int p = begin + k + j * 640"
        then obtain k where k: "i \<le> k" "k < face_width f" "int p = begin + k + j * 640"
          by blast
        with False have "k \<noteq> i" by auto
        with k show "\<exists>k. i + 1 \<le> k \<and> k < face_width f \<and> int p = begin + k + j * 640"
          by (intro exI [of _ k]) simp
      next
        assume "\<exists>k. i + 1 \<le> k \<and> k < face_width f \<and> int p = begin + k + j * 640"
        then obtain k where "i + 1 \<le> k" "k < face_width f" "int p = begin + k + j * 640"
          by blast
        then show "\<exists>k. i \<le> k \<and> k < face_width f \<and> int p = begin + k + j * 640"
          by (intro exI [of _ k]) simp
      qed
      have "?ys1 ! p = ys ! p" using ne by simp
      with eq show ?thesis by (simp only: iff)
    qed
  qed
  then show ?case using step r len by simp
qed

lemma blank_rows_step:
  assumes "j < face_height f" and "blank_row f begin j 0 ys = Inr ys1"
  shows "blank_rows f begin j ys = blank_rows f begin (j + 1) ys1"
  using assms by (subst blank_rows.simps) simp

lemma blank_rows_done: "\<not> j < face_height f \<Longrightarrow> blank_rows f begin j ys = Inr ys"
  by (subst blank_rows.simps) simp

lemma blank_rows_ok:
  assumes "\<forall>j' k. j \<le> j' \<and> j' < face_height f \<and> 0 \<le> k \<and> k < face_width f \<longrightarrow>
             cell_ok begin (length ys) k j'"
  shows "\<exists>ys'. blank_rows f begin j ys = Inr ys' \<and> length ys' = length ys \<and>
           (\<forall>p < length ys. ys' ! p =
              (if \<exists>j' k. j \<le> j' \<and> j' < face_height f \<and> 0 \<le> k \<and> k < face_width f \<and>
                    int p = begin + k + j' * 640 then 0
               else ys ! p))"
  using assms
proof (induction "nat (face_height f - j)" arbitrary: j ys)
  case 0
  then have "\<not> j < face_height f" by simp
  then show ?case by (auto simp add: blank_rows_done)
next
  case (Suc n)
  then have lt: "j < face_height f" by simp
  have "\<forall>k. 0 \<le> k \<and> k < face_width f \<longrightarrow> cell_ok begin (length ys) k j"
    using Suc.prems lt by simp
  then obtain ys1 where r1: "blank_row f begin j 0 ys = Inr ys1"
    and len1: "length ys1 = length ys"
    and val1: "\<forall>p < length ys. ys1 ! p =
              (if \<exists>k. 0 \<le> k \<and> k < face_width f \<and> int p = begin + k + j * 640 then 0
               else ys ! p)"
    using blank_row_ok [of 0 f "begin" ys j] by blast
  have step: "blank_rows f begin j ys = blank_rows f begin (j + 1) ys1"
    using lt r1 by (rule blank_rows_step)
  have "n = nat (face_height f - (j + 1))"
    using Suc.hyps(2) by simp
  moreover have "\<forall>j' k. j + 1 \<le> j' \<and> j' < face_height f \<and> 0 \<le> k \<and> k < face_width f \<longrightarrow>
             cell_ok begin (length ys1) k j'"
    using Suc.prems len1 by simp
  ultimately obtain ys' where r: "blank_rows f begin (j + 1) ys1 = Inr ys'"
    and len: "length ys' = length ys1"
    and val: "\<forall>p < length ys1. ys' ! p =
              (if \<exists>j' k. j + 1 \<le> j' \<and> j' < face_height f \<and> 0 \<le> k \<and> k < face_width f \<and>
                    int p = begin + k + j' * 640 then 0
               else ys1 ! p)"
    using Suc.hyps(1) [of "j + 1" ys1] by blast
  have "ys' ! p =
      (if \<exists>j' k. j \<le> j' \<and> j' < face_height f \<and> 0 \<le> k \<and> k < face_width f \<and>
            int p = begin + k + j' * 640 then 0
       else ys ! p)" if p: "p < length ys" for p
  proof -
    let ?here = "\<exists>k. 0 \<le> k \<and> k < face_width f \<and> int p = begin + k + j * 640"
    let ?below = "\<exists>j' k. j + 1 \<le> j' \<and> j' < face_height f \<and> 0 \<le> k \<and> k < face_width f \<and>
            int p = begin + k + j' * 640"
    let ?all = "\<exists>j' k. j \<le> j' \<and> j' < face_height f \<and> 0 \<le> k \<and> k < face_width f \<and>
            int p = begin + k + j' * 640"
    have eq1: "ys1 ! p = (if ?here then 0 else ys ! p)"
      using val1 p by blast
    have "p < length ys1" using p len1 by simp
    with val have eq: "ys' ! p = (if ?below then 0 else ys1 ! p)"
      by blast
    have a1: "j' = j \<or> j + 1 \<le> j'" if "j \<le> j'" for j'
      using that by arith
    have a2: "j \<le> j'" if "j + 1 \<le> j'" for j'
      using that by arith
    have iff: "?all \<longleftrightarrow> ?here \<or> ?below"
    proof
      assume ?all
      then obtain j' k where jk: "j \<le> j'" "j' < face_height f" "0 \<le> k" "k < face_width f"
          "int p = begin + k + j' * 640"
        by blast
      from a1 [OF jk(1)] show "?here \<or> ?below"
      proof
        assume "j' = j"
        with jk have ?here by blast
        then show ?thesis ..
      next
        assume "j + 1 \<le> j'"
        with jk have ?below by blast
        then show ?thesis ..
      qed
    next
      assume "?here \<or> ?below"
      then show ?all
      proof
        assume ?here
        then obtain k where "0 \<le> k" "k < face_width f" "int p = begin + k + j * 640"
          by blast
        with lt show ?all by (intro exI [of _ j] exI [of _ k]) simp
      next
        assume ?below
        then obtain j' k where "j + 1 \<le> j'" "j' < face_height f" "0 \<le> k" "k < face_width f"
          "int p = begin + k + j' * 640"
          by blast
        then show ?all by (intro exI [of _ j'] exI [of _ k]) simp
      qed
    qed
    show ?thesis
    proof (cases ?below)
      case True
      with eq have "ys' ! p = 0" by (simp only: if_True)
      moreover from True iff have ?all by blast
      ultimately show ?thesis by (simp only: if_True)
    next
      case False
      with eq have e2: "ys' ! p = ys1 ! p" by (simp only: if_False)
      show ?thesis
      proof (cases ?here)
        case True
        with eq1 e2 have "ys' ! p = 0" by (simp only: if_True)
        moreover from True iff have ?all by blast
        ultimately show ?thesis by (simp only: if_True)
      next
        case nh: False
        with eq1 e2 have "ys' ! p = ys ! p" by (simp only: if_False)
        moreover from nh False iff have "\<not> ?all" by blast
        ultimately show ?thesis by (simp only: if_False)
      qed
    qed
  qed
  then show ?case using step r len len1 by simp
qed

lemma face_fits_cell_ok:
  assumes "face_fits f n" and "0 \<le> k" and "k < face_width f" and "0 \<le> j"
    and "j < face_height f"
  shows "cell_ok (face_x f + face_y f * 640) n k j"
proof -
  have pos: "0 < face_width f \<and> 0 < face_height f"
    using assms by simp
  with assms(1) have b: "0 \<le> face_x f + face_y f * 640"
      "face_x f + face_y f * 640 + (face_width f - 1) + (face_height f - 1) * 640 < int n"
      "face_x f + face_y f * 640 + (face_width f - 1) + (face_height f - 1) * 640 \<le> 2147483647"
    by (simp_all add: face_fits_def face_index_def in_int_def)
  have "k \<le> face_width f - 1" "j * 640 \<le> (face_height f - 1) * 640" "0 \<le> j * 640"
    using assms(2-5) by simp_all
  with b assms(2) show ?thesis
    by (simp add: cell_ok_def in_int_def)
qed

lemma in_face_iff:
  "in_face f p \<longleftrightarrow>
     (\<exists>j k. 0 \<le> j \<and> j < face_height f \<and> 0 \<le> k \<and> k < face_width f \<and>
        p = face_x f + face_y f * 640 + k + j * 640)"
proof
  assume "in_face f p"
  then obtain i j where "0 \<le> i" "i < face_width f" "0 \<le> j" "j < face_height f"
      "p = face_x f + face_y f * 640 + i + j * 640"
    by (auto simp add: in_face_def face_index_def)
  then show "\<exists>j k. 0 \<le> j \<and> j < face_height f \<and> 0 \<le> k \<and> k < face_width f \<and>
        p = face_x f + face_y f * 640 + k + j * 640"
    by blast
next
  assume "\<exists>j k. 0 \<le> j \<and> j < face_height f \<and> 0 \<le> k \<and> k < face_width f \<and>
        p = face_x f + face_y f * 640 + k + j * 640"
  then obtain j k where jk: "0 \<le> j" "j < face_height f" "0 \<le> k" "k < face_width f"
      "p = face_x f + face_y f * 640 + k + j * 640"
    by blast
  have "k \<in> {0 ..< face_width f}" "j \<in> {0 ..< face_height f}"
    using jk by simp_all
  moreover have "p = face_index f k j"
    using jk(5) by (simp add: face_index_def)
  ultimately show "in_face f p"
    unfolding in_face_def by blast
qed

lemma blank_face_ok:
  assumes "face_fits f (length ys)"
  shows "\<exists>ys'. blank_face f ys = Inr ys' \<and> length ys' = length ys \<and>
           (\<forall>p < length ys. ys' ! p = (if in_face f (int p) then 0 else ys ! p))"
proof -
  let ?b = "face_x f + face_y f * 640"
  have start: "blank_face f ys = blank_rows f ?b 0 ys"
    using assms by (simp add: blank_face_def face_fits_def c_mul_def c_add_def)
  have "\<forall>j' k. 0 \<le> j' \<and> j' < face_height f \<and> 0 \<le> k \<and> k < face_width f \<longrightarrow>
             cell_ok ?b (length ys) k j'"
    using assms by (simp add: face_fits_cell_ok)
  then obtain ys' where "blank_rows f ?b 0 ys = Inr ys'" "length ys' = length ys"
      "\<forall>p < length ys. ys' ! p =
              (if \<exists>j' k. 0 \<le> j' \<and> j' < face_height f \<and> 0 \<le> k \<and> k < face_width f \<and>
                    int p = ?b + k + j' * 640 then 0
               else ys ! p)"
    using blank_rows_ok [of 0 f ?b ys] by blast
  then show ?thesis
    unfolding start in_face_iff by blast
qed

lemma preview_cb_blank:
  assumes "\<not> facelock st" and "cam_face st = Some (f # others)" and "0 < cam_face_num st"
    and "face_running st" and "face_fits f (length (plane_y frame))"
  shows "\<exists>ys. snd (camera_preview_cb st frame) = Inr (frame\<lparr>plane_y := ys\<rparr>) \<and>
           length ys = length (plane_y frame) \<and>
           (\<forall>p < length (plane_y frame).
              ys ! p = (if in_face f (int p) then 0 else plane_y frame ! p))"
proof -
  obtain ys where b: "blank_face f (plane_y frame) = Inr ys"
    and rest: "length ys = length (plane_y frame)"
      "\<forall>p < length (plane_y frame).
              ys ! p = (if in_face f (int p) then 0 else plane_y frame ! p)"
    using blank_face_ok [OF assms(5)] by blast
  have "snd (camera_preview_cb st frame) = Inr (frame\<lparr>plane_y := ys\<rparr>)"
    using assms(1-4) b by (simp add: camera_preview_cb_def)
  with rest show ?thesis by blast
qed

lemma preview_cb_others:
  "cam_face st = Some (f # others) \<Longrightarrow>
     camera_preview_cb (st\<lparr>cam_face := Some (f # others')\<rparr>) frame = camera_preview_cb st frame"
  by (simp add: camera_preview_cb_def)

lemma preview_example:
  "camera_preview_cb
     \<lparr>cam_face = Some [face_a, face_b], cam_face_num = 2, face_running = True, facelock = False\<rparr>
     \<lparr>plane_y = [1, 2, 3, 4, 5, 6], plane_uv = [7, 8]\<rparr>
   = ([TryLock True, Read CamFace, Read CamFaceNum, Read CamFace, Unlock],
      Inr \<lparr>plane_y = [1, 0, 0, 4, 5, 6], plane_uv = [7, 8]\<rparr>)"
  by (simp add: camera_preview_cb_def blank_face_def blank_rows.simps blank_row.simps
      c_add_def c_mul_def in_int_def store_zero_def face_a_def)

lemma preview_example_overrun:
  "camera_preview_cb
     \<lparr>cam_face = Some [face_d], cam_face_num = 1, face_running = True, facelock = False\<rparr>
     \<lparr>plane_y = [1, 2, 3, 4, 5, 6], plane_uv = [7, 8]\<rparr>
   = ([TryLock True, Read CamFace, Read CamFaceNum, Read CamFace], Inl OutOfBounds)"
  by (simp add: camera_preview_cb_def blank_face_def blank_rows.simps blank_row.simps
      c_add_def c_mul_def in_int_def store_zero_def face_d_def)

text \<open>
  Claim C2, as stated: whenever \<^verbatim>\<open>cam_face\<close> is non-null, \<^verbatim>\<open>cam_face_num\<close> is
  positive, face detection runs and the trylock succeeds, the callback clears exactly the
  bytes of the luminance plane at the indices \<open>(x + y * 640) + i + j * 640\<close>. It
  fails for a face of two rows on a plane of six bytes: the second row is outside the
  plane and the store is out of bounds.
\<close>

theorem preview_blanks_face_region_counterexample:
  "\<not> (\<forall>st frame f others.
        \<not> facelock st \<and> cam_face st = Some (f # others) \<and> 0 < cam_face_num st \<and>
        face_running st \<longrightarrow>
        (\<exists>ys. snd (camera_preview_cb st frame) = Inr (frame\<lparr>plane_y := ys\<rparr>) \<and>
           length ys = length (plane_y frame) \<and>
           (\<forall>p < length (plane_y frame).
              ys ! p =
                (if \<exists>i j. 0 \<le> i \<and> i < face_width f \<and> 0 \<le> j \<and> j < face_height f \<and>
                       int p = (face_x f + face_y f * 640) + i + j * 640
                 then 0 else plane_y frame ! p))))"
proof
  let ?st = "\<lparr>cam_face = Some [face_d], cam_face_num = 1, face_running = True,
      facelock = False\<rparr>"
  let ?fr = "\<lparr>plane_y = [1, 2, 3, 4, 5, 6], plane_uv = [7, 8]\<rparr>"
  assume "\<forall>st frame f others.
        \<not> facelock st \<and> cam_face st = Some (f # others) \<and> 0 < cam_face_num st \<and>
        face_running st \<longrightarrow>
        (\<exists>ys. snd (camera_preview_cb st frame) = Inr (frame\<lparr>plane_y := ys\<rparr>) \<and>
           length ys = length (plane_y frame) \<and>
           (\<forall>p < length (plane_y frame).
              ys ! p =
                (if \<exists>i j. 0 \<le> i \<and> i < face_width f \<and> 0 \<le> j \<and> j < face_height f \<and>
                       int p = (face_x f + face_y f * 640) + i + j * 640
                 then 0 else plane_y frame ! p)))"
  then have "\<not> facelock ?st \<and> cam_face ?st = Some (face_d # []) \<and> 0 < cam_face_num ?st \<and>
        face_running ?st \<longrightarrow>
        (\<exists>ys. snd (camera_preview_cb ?st ?fr) = Inr (?fr\<lparr>plane_y := ys\<rparr>) \<and>
           length ys = length (plane_y ?fr) \<and>
           (\<forall>p < length (plane_y ?fr).
              ys ! p =
                (if \<exists>i j. 0 \<le> i \<and> i < face_width face_d \<and> 0 \<le> j \<and> j < face_height face_d \<and>
                       int p = (face_x face_d + face_y face_d * 640) + i + j * 640
                 then 0 else plane_y ?fr ! p)))"
    by blast
  then obtain ys where "snd (camera_preview_cb ?st ?fr) = Inr (?fr\<lparr>plane_y := ys\<rparr>)"
    by auto
  moreover have "snd (camera_preview_cb ?st ?fr) = Inl OutOfBounds"
    by (simp add: preview_example_overrun)
  ultimately show False by simp
qed

text \<open>
  Claim C2, amended. When \<^verbatim>\<open>cam_face\<close> is non-null, \<^verbatim>\<open>cam_face_num\<close> is positive,
  face detection runs, the trylock succeeds and the face lies inside the luminance plane
  (\<open>face_fits\<close>), the callback sets to zero exactly the bytes of the plane at the
  indices \<open>(x + y * 640) + i + j * 640\<close> for \<open>0 \<le> i < width\<close> and
  \<open>0 \<le> j < height\<close>, with the fixed stride of 640, and changes no other byte of the
  frame.
\<close>

theorem preview_blanks_face_region:
  assumes "\<not> facelock st" and "cam_face st = Some (f # others)" and "0 < cam_face_num st"
    and "face_running st" and "face_fits f (length (plane_y frame))"
  shows "\<exists>ys. snd (camera_preview_cb st frame) = Inr (frame\<lparr>plane_y := ys\<rparr>) \<and>
           length ys = length (plane_y frame) \<and>
           (\<forall>p < length (plane_y frame).
              ys ! p =
                (if \<exists>i j. 0 \<le> i \<and> i < face_width f \<and> 0 \<le> j \<and> j < face_height f \<and>
                       int p = (face_x f + face_y f * 640) + i + j * 640
                 then 0 else plane_y frame ! p))"
proof -
  have "in_face f q \<longleftrightarrow>
      (\<exists>i j. 0 \<le> i \<and> i < face_width f \<and> 0 \<le> j \<and> j < face_height f \<and>
         q = (face_x f + face_y f * 640) + i + j * 640)" for q
    unfolding in_face_iff by blast
  then show ?thesis
    using preview_cb_blank [OF assms] by simp
qed

theorem preview_blanks_face_region_witness:
  "\<exists>ys. snd (camera_preview_cb
       \<lparr>cam_face = Some [face_d], cam_face_num = 1, face_running = True, facelock = False\<rparr>
       \<lparr>plane_y = replicate 700 9, plane_uv = [7, 8]\<rparr>)
     = Inr \<lparr>plane_y = ys, plane_uv = [7, 8]\<rparr>
     \<and> length ys = 700 \<and> ys ! 1 = 0 \<and> ys ! 642 = 0 \<and> ys ! 0 = 9"
proof -
  let ?st = "\<lparr>cam_face = Some [face_d], cam_face_num = 1, face_running = True,
      facelock = False\<rparr>"
  let ?fr = "\<lparr>plane_y = replicate 700 (9 :: byte), plane_uv = [7, 8]\<rparr>"
  let ?hit = "\<lambda>p. \<exists>i j. 0 \<le> i \<and> i < face_width face_d \<and> 0 \<le> j \<and> j < face_height face_d \<and>
                       int p = (face_x face_d + face_y face_d * 640) + i + j * 640"
  have fits: "face_fits face_d 700"
    by (simp add: face_fits_def face_d_def face_index_def in_int_def)
  have "\<exists>ys. snd (camera_preview_cb ?st ?fr) = Inr (?fr\<lparr>plane_y := ys\<rparr>) \<and>
           length ys = length (plane_y ?fr) \<and>
           (\<forall>p < length (plane_y ?fr).
              ys ! p = (if ?hit p then 0 else plane_y ?fr ! p))"
    by (rule preview_blanks_face_region [of ?st face_d "[]" ?fr]) (simp_all add: fits)
  then obtain ys where r: "snd (camera_preview_cb ?st ?fr) = Inr (?fr\<lparr>plane_y := ys\<rparr>)"
    and len: "length ys = length (plane_y ?fr)"
    and val: "\<forall>p < length (plane_y ?fr). ys ! p = (if ?hit p then 0 else plane_y ?fr ! p)"
    by blast
  have h1: "?hit 1"
    by (intro exI [of _ 0]) (simp add: face_d_def)
  have h642: "?hit 642"
    by (intro exI [of _ 1]) (simp add: face_d_def)
  have h0: "\<not> ?hit 0"
    by (auto simp add: face_d_def)
  have v: "ys ! p = (if ?hit p then 0 else plane_y ?fr ! p)" if "p < length (plane_y ?fr)" for p
    using val that by blast
  have l: "(1::nat) < length (plane_y ?fr)" "(642::nat) < length (plane_y ?fr)"
      "(0::nat) < length (plane_y ?fr)"
    by simp_all
  from v [OF l(1)] h1 have "ys ! 1 = 0" by (simp only: if_True)
  moreover from v [OF l(2)] h642 have "ys ! 642 = 0" by (simp only: if_True)
  moreover from v [OF l(3)] h0 have "ys ! 0 = plane_y ?fr ! 0" by (simp only: if_False)
  then have "ys ! 0 = 9" by simp
  ultimately show ?thesis using r len by simp
qed

text \<open>
  Claim C3, as stated: every one of the \<^verbatim>\<open>cam_face_num\<close> rectangles of the buffer has
  its pixels cleared. It fails for a buffer of two faces: the byte of the second face
  keeps its value.
\<close>

theorem preview_blanks_first_face_only_counterexample:
  "\<not> (\<forall>st frame buf.
        \<not> facelock st \<and> cam_face st = Some buf \<and> 0 < cam_face_num st \<and>
        cam_face_num st \<le> int (length buf) \<and> face_running st \<and>
        (\<forall>k < nat (cam_face_num st). face_fits (buf ! k) (length (plane_y frame))) \<longrightarrow>
        (\<exists>ys. snd (camera_preview_cb st frame) = Inr (frame\<lparr>plane_y := ys\<rparr>) \<and>
           (\<forall>k < nat (cam_face_num st). \<forall>p < length (plane_y frame).
              in_face (buf ! k) (int p) \<longrightarrow> ys ! p = 0)))"
proof
  let ?buf = "[face_a, face_b]"
  let ?st = "\<lparr>cam_face = Some ?buf, cam_face_num = 2, face_running = True,
      facelock = False\<rparr>"
  let ?fr = "\<lparr>plane_y = [1, 2, 3, 4, 5, 6], plane_uv = [7, 8]\<rparr>"
  assume "\<forall>st frame buf.
        \<not> facelock st \<and> cam_face st = Some buf \<and> 0 < cam_face_num st \<and>
        cam_face_num st \<le> int (length buf) \<and> face_running st \<and>
        (\<forall>k < nat (cam_face_num st). face_fits (buf ! k) (length (plane_y frame))) \<longrightarrow>
        (\<exists>ys. snd (camera_preview_cb st frame) = Inr (frame\<lparr>plane_y := ys\<rparr>) \<and>
           (\<forall>k < nat (cam_face_num st). \<forall>p < length (plane_y frame).
              in_face (buf ! k) (int p) \<longrightarrow> ys ! p = 0))"
  then have imp: "\<not> facelock ?st \<and> cam_face ?st = Some ?buf \<and> 0 < cam_face_num ?st \<and>
        cam_face_num ?st \<le> int (length ?buf) \<and> face_running ?st \<and>
        (\<forall>k < nat (cam_face_num ?st). face_fits (?buf ! k) (length (plane_y ?fr))) \<longrightarrow>
        (\<exists>ys. snd (camera_preview_cb ?st ?fr) = Inr (?fr\<lparr>plane_y := ys\<rparr>) \<and>
           (\<forall>k < nat (cam_face_num ?st). \<forall>p < length (plane_y ?fr).
              in_face (?buf ! k) (int p) \<longrightarrow> ys ! p = 0))"
    by blast
  have fa: "face_fits face_a (length (plane_y ?fr))"
    and fb: "face_fits face_b (length (plane_y ?fr))"
    by (simp_all add: face_fits_def face_a_def face_b_def face_index_def in_int_def)
  have fits: "\<forall>k < nat (cam_face_num ?st). face_fits (?buf ! k) (length (plane_y ?fr))"
  proof (intro allI impI)
    fix k :: nat
    assume "k < nat (cam_face_num ?st)"
    then have "k = 0 \<or> k = 1" by auto
    then show "face_fits (?buf ! k) (length (plane_y ?fr))"
      using fa fb by auto
  qed
  from imp fits
  obtain ys where r: "snd (camera_preview_cb ?st ?fr) = Inr (?fr\<lparr>plane_y := ys\<rparr>)"
    and z: "\<forall>k < nat (cam_face_num ?st). \<forall>p < length (plane_y ?fr).
              in_face (?buf ! k) (int p) \<longrightarrow> ys ! p = 0"
    by auto
  from r have ys: "ys = [1, 0, 0, 4, 5, 6]"
    by (simp add: preview_example)
  have k1: "(1::nat) < nat (cam_face_num ?st)" and p4: "(4::nat) < length (plane_y ?fr)"
    by simp_all
  have "in_face (?buf ! 1) (int 4)"
    unfolding in_face_iff by (intro exI [of _ 0]) (simp add: face_b_def)
  with z k1 p4 have "ys ! 4 = 0" by blast
  with ys show False by simp
qed

text \<open>
  Claim C3, amended. For a frame processed while the buffer holds a positive number of
  rectangles (trylock successful, face detection running, first rectangle inside the
  luminance plane), the pixels of the first rectangle are set to zero and every byte
  outside the first rectangle keeps its value; the rectangles after the first have no
  influence on the result.
\<close>

theorem preview_blanks_first_face_only:
  assumes "\<not> facelock st" and "cam_face st = Some (f # others)" and "0 < cam_face_num st"
    and "face_running st" and "face_fits f (length (plane_y frame))"
  shows "(\<exists>ys. snd (camera_preview_cb st frame) = Inr (frame\<lparr>plane_y := ys\<rparr>) \<and>
            (\<forall>p < length (plane_y frame). in_face f (int p) \<longrightarrow> ys ! p = 0) \<and>
            (\<forall>p < length (plane_y frame). \<not> in_face f (int p) \<longrightarrow> ys ! p = plane_y frame ! p))
       \<and> (\<forall>others'. camera_preview_cb (st\<lparr>cam_face := Some (f # others')\<rparr>) frame =
                      camera_preview_cb st frame)"
proof
  obtain ys where r: "snd (camera_preview_cb st frame) = Inr (frame\<lparr>plane_y := ys\<rparr>)"
    and val: "\<forall>p < length (plane_y frame).
              ys ! p = (if in_face f (int p) then 0 else plane_y frame ! p)"
    using preview_cb_blank [OF assms] by blast
  from val have "\<forall>p < length (plane_y frame). in_face f (int p) \<longrightarrow> ys ! p = 0"
    by simp
  moreover from val
  have "\<forall>p < length (plane_y frame). \<not> in_face f (int p) \<longrightarrow> ys ! p = plane_y frame ! p"
    by simp
  ultimately
  show "\<exists>ys. snd (camera_preview_cb st frame) = Inr (frame\<lparr>plane_y := ys\<rparr>) \<and>
            (\<forall>p < length (plane_y frame). in_face f (int p) \<longrightarrow> ys ! p = 0) \<and>
            (\<forall>p < length (plane_y frame). \<not> in_face f (int p) \<longrightarrow> ys ! p = plane_y frame ! p)"
    using r by blast
next
  show "\<forall>others'. camera_preview_cb (st\<lparr>cam_face := Some (f # others')\<rparr>) frame =
                      camera_preview_cb st frame"
    using assms(2) by (simp add: preview_cb_others)
qed

theorem preview_blanks_first_face_only_witness:
  "camera_preview_cb
      \<lparr>cam_face = Some [face_a, face_c], cam_face_num = 2, face_running = True,
       facelock = False\<rparr>
      \<lparr>plane_y = [1, 2, 3, 4, 5, 6], plane_uv = [7, 8]\<rparr>
   = camera_preview_cb
      \<lparr>cam_face = Some [face_a, face_b], cam_face_num = 2, face_running = True,
       facelock = False\<rparr>
      \<lparr>plane_y = [1, 2, 3, 4, 5, 6], plane_uv = [7, 8]\<rparr>"
proof -
  let ?st = "\<lparr>cam_face = Some [face_a, face_b], cam_face_num = 2, face_running = True,
      facelock = False\<rparr>"
  let ?fr = "\<lparr>plane_y = [1, 2, 3, 4, 5, 6], plane_uv = [7, 8]\<rparr>"
  have fa: "face_fits face_a (length (plane_y ?fr))"
    by (simp add: face_fits_def face_a_def face_index_def in_int_def)
  have "\<forall>others'. camera_preview_cb (?st\<lparr>cam_face := Some (face_a # others')\<rparr>) ?fr =
                      camera_preview_cb ?st ?fr"
    using preview_blanks_first_face_only [of ?st face_a "[face_b]" ?fr, OF _ _ _ _ fa]
    by simp
  then have "camera_preview_cb (?st\<lparr>cam_face := Some (face_a # [face_c])\<rparr>) ?fr =
                      camera_preview_cb ?st ?fr"
    by blast
  then show ?thesis by simp
qed

end
